theory Spec2Isabelle
  imports Complex_Main "HOL-Library.Sublist" "HOL-Library.AList"
begin

section \<open>Text, Unicode tables and Python values\<close>

text \<open>
  A Python \<open>str\<close> is a sequence of Unicode code points; a code point is a natural number
  and a text is a list of them. The literals of the source that lie in Basic Latin are
  written \<open>cps ''...''\<close>, the CJK ones as lists of hexadecimal code points.

  The parser relies on tables of the Python runtime that are not part of the repository:
  \<open>str.lower\<close>, \<open>str.upper\<close>, the case variants that \<open>re.IGNORECASE\<close> accepts for a
  literal, the decimal digits (\<open>\d\<close> and \<open>float\<close> read the same table), whitespace (\<open>\s\<close>)
  and word characters (\<open>\w\<close>). They are a parameter of every function below, so each
  general theorem holds for whatever these tables are.
\<close>

type_synonym ustr = "nat list"

record unicode =
  u_lower :: "ustr \<Rightarrow> ustr"
  u_upper :: "ustr \<Rightarrow> ustr"
  u_casevar :: "nat \<Rightarrow> nat \<Rightarrow> bool"
  u_digit :: "nat \<Rightarrow> nat option"
  u_space :: "nat \<Rightarrow> bool"
  u_word :: "nat \<Rightarrow> bool"

definition cps :: "string \<Rightarrow> ustr" where
  "cps s = map of_char s"

datatype error = ValueError | TypeError | IndexError | AttributeError

definition bindE :: "error + 'a \<Rightarrow> ('a \<Rightarrow> error + 'b) \<Rightarrow> error + 'b" where
  "bindE m f = (case m of Inl e \<Rightarrow> Inl e | Inr x \<Rightarrow> f x)"

text \<open>\<open>xs[i]\<close> for a non-negative index: IndexError out of range.\<close>

definition py_index :: "'a list \<Rightarrow> nat \<Rightarrow> error + 'a" where
  "py_index xs i = (if i < length xs then Inr (xs ! i) else Inl IndexError)"

text \<open>\<open>kw in text\<close> on strings: \<open>kw\<close> occurs as a contiguous run of \<open>text\<close>.\<close>

fun py_in :: "ustr \<Rightarrow> ustr \<Rightarrow> bool" where
  "py_in kw [] = (kw = [])"
| "py_in kw (c # cs) = (prefix kw (c # cs) \<or> py_in kw cs)"

text \<open>
  \<open>float(s)\<close> on a string. The model accepts an optional sign, one or more decimal digits
  and an optional point followed by digits, and gives the exact decimal value (rounding to
  binary64 is not modelled). Python accepts more (exponents, \<open>inf\<close>, \<open>nan\<close>, underscores,
  surrounding blanks, a leading point); the model answers ValueError for those, so a proof
  that the model does not raise covers Python.
\<close>

fun digits_nat :: "unicode \<Rightarrow> ustr \<Rightarrow> nat \<Rightarrow> nat" where
  "digits_nat U [] acc = acc"
| "digits_nat U (c # cs) acc = digits_nat U cs (10 * acc + (case u_digit U c of Some d \<Rightarrow> d | None \<Rightarrow> 0))"

definition is_dec :: "unicode \<Rightarrow> nat \<Rightarrow> bool" where
  "is_dec U c = (u_digit U c \<noteq> None)"

fun strip_sign :: "ustr \<Rightarrow> bool \<times> ustr" where
  "strip_sign [] = (False, [])"
| "strip_sign (c # cs) =
     (if c = 0x2D then (True, cs) else if c = 0x2B then (False, cs) else (False, c # cs))"

definition unsigned_float :: "unicode \<Rightarrow> ustr \<Rightarrow> error + real" where
  "unsigned_float U b =
     (let ip = takeWhile (is_dec U) b; r = dropWhile (is_dec U) b in
      if ip = [] then Inl ValueError
      else case r of
        [] \<Rightarrow> Inr (real (digits_nat U ip 0))
      | d # fp \<Rightarrow>
          if d = 0x2E \<and> list_all (is_dec U) fp
          then Inr (real (digits_nat U ip 0) + real (digits_nat U fp 0) / 10 ^ length fp)
          else Inl ValueError)"

definition py_float :: "unicode \<Rightarrow> ustr \<Rightarrow> error + real" where
  "py_float U s =
     (case strip_sign s of
        (neg, b) \<Rightarrow> bindE (unsigned_float U b) (\<lambda>v. Inr (if neg then - v else v)))"

section \<open>Regular expressions as \<open>re\<close> runs them\<close>

text \<open>
  The patterns of the source use literals, character classes, greedy \<open>*\<close> and \<open>+\<close> on a
  single class, \<open>?\<close>, concatenation, alternation and capture groups; none uses an anchor
  or a look-around, so a match depends only on the text from its start on.
  \<open>paths\<close> lists every way a pattern matches at the start of the input, in the order the
  backtracking matcher tries them: a greedy repetition longest first, \<open>?\<close> present before
  absent, alternatives left to right. The head of the list is the match \<open>re\<close> reports.
  The flag \<open>ic\<close> is \<open>re.IGNORECASE\<close>.
\<close>

datatype cclass = Lit nat | OneOf "nat list" | NoneOf "nat list" | Digit | Space | NonSpace | Word

datatype rx = Eps | One cclass | Star cclass | Plus cclass | Opt rx | Seq rx rx | Alt rx rx | Grp nat rx

definition lit_ok :: "unicode \<Rightarrow> bool \<Rightarrow> nat \<Rightarrow> nat \<Rightarrow> bool" where
  "lit_ok U ic p c = (c = p \<or> (ic \<and> u_casevar U p c))"

fun cls_ok :: "unicode \<Rightarrow> bool \<Rightarrow> cclass \<Rightarrow> nat \<Rightarrow> bool" where
  "cls_ok U ic (Lit p) c = lit_ok U ic p c"
| "cls_ok U ic (OneOf ps) c = list_ex (\<lambda>p. lit_ok U ic p c) ps"
| "cls_ok U ic (NoneOf ps) c = (\<not> list_ex (\<lambda>p. lit_ok U ic p c) ps)"
| "cls_ok U ic Digit c = is_dec U c"
| "cls_ok U ic Space c = u_space U c"
| "cls_ok U ic NonSpace c = (\<not> u_space U c)"
| "cls_ok U ic Word c = u_word U c"

type_synonym groups = "nat \<Rightarrow> ustr option"

type_synonym mstate = "groups \<times> ustr"

fun paths :: "unicode \<Rightarrow> bool \<Rightarrow> rx \<Rightarrow> mstate \<Rightarrow> mstate list" where
  "paths U ic Eps st = [st]"
| "paths U ic (One c) (g, s) =
     (case s of [] \<Rightarrow> [] | x # xs \<Rightarrow> if cls_ok U ic c x then [(g, xs)] else [])"
| "paths U ic (Star c) (g, s) =
     map (\<lambda>k. (g, drop k s)) (rev [0..<Suc (length (takeWhile (cls_ok U ic c) s))])"
| "paths U ic (Plus c) (g, s) =
     map (\<lambda>k. (g, drop k s)) (rev [1..<Suc (length (takeWhile (cls_ok U ic c) s))])"
| "paths U ic (Opt r) st = paths U ic r st @ [st]"
| "paths U ic (Seq r1 r2) st = concat (map (paths U ic r2) (paths U ic r1 st))"
| "paths U ic (Alt r1 r2) st = paths U ic r1 st @ paths U ic r2 st"
| "paths U ic (Grp i r) (g, s) =
     map (\<lambda>(g', rest). (g'(i \<mapsto> take (length s - length rest) s), rest))
       (paths U ic r (g, s))"

text \<open>A match object: \<open>group()\<close>, the numbered groups, and the text after the match.\<close>

record rmatch =
  m_text :: ustr
  m_groups :: groups
  m_rest :: ustr

definition match_at :: "unicode \<Rightarrow> bool \<Rightarrow> rx \<Rightarrow> ustr \<Rightarrow> rmatch option" where
  "match_at U ic r s =
     (case paths U ic r (Map.empty, s) of
        [] \<Rightarrow> None
      | (g, rest) # _ \<Rightarrow>
          Some \<lparr>m_text = take (length s - length rest) s, m_groups = g, m_rest = rest\<rparr>)"

text \<open>\<open>pattern.search\<close>: the match at the leftmost position that has one.\<close>

fun re_search :: "unicode \<Rightarrow> bool \<Rightarrow> rx \<Rightarrow> ustr \<Rightarrow> rmatch option" where
  "re_search U ic r [] = match_at U ic r []"
| "re_search U ic r (c # cs) =
     (case match_at U ic r (c # cs) of Some m \<Rightarrow> Some m | None \<Rightarrow> re_search U ic r cs)"

text \<open>
  \<open>pattern.finditer\<close>: successive searches, each from the end of the match before. Every
  pattern it is used with consumes at least one character; after an empty match the scan
  moves one character on.
\<close>

definition next_input :: "ustr \<Rightarrow> ustr \<Rightarrow> ustr" where
  "next_input s rest = (if length rest < length s then rest else tl s)"

function finditer :: "unicode \<Rightarrow> bool \<Rightarrow> rx \<Rightarrow> ustr \<Rightarrow> rmatch list" where
  "finditer U ic r [] = (case re_search U ic r [] of None \<Rightarrow> [] | Some m \<Rightarrow> [m])"
| "finditer U ic r (c # cs) =
     (case re_search U ic r (c # cs) of
        None \<Rightarrow> []
      | Some m \<Rightarrow> m # finditer U ic r (next_input (c # cs) (m_rest m)))"
  by pat_completeness auto
termination
  by (relation "measure (\<lambda>(U, ic, r, s). length s)") (auto simp: next_input_def)

fun word_rx :: "ustr \<Rightarrow> rx" where
  "word_rx [] = Eps"
| "word_rx (c # cs) = Seq (One (Lit c)) (word_rx cs)"

fun seqs :: "rx list \<Rightarrow> rx" where
  "seqs [] = Eps"
| "seqs [r] = r"
| "seqs (r # rs) = Seq r (seqs rs)"

fun alts :: "rx list \<Rightarrow> rx" where
  "alts [] = Eps"
| "alts [r] = r"
| "alts (r # rs) = Alt r (alts rs)"

text \<open>\<open>float(m.group(i))\<close>; a group that took no part in the match is \<open>None\<close>.\<close>

definition float_group :: "unicode \<Rightarrow> rmatch \<Rightarrow> nat \<Rightarrow> error + real" where
  "float_group U m i = (case m_groups m i of None \<Rightarrow> Inl TypeError | Some s \<Rightarrow> py_float U s)"

section \<open>Keyword tables\<close>

definition COLOR_MAP :: "(ustr \<times> nat) list" where
  "COLOR_MAP =
  [(cps ''red'', 1),
   (cps ''yellow'', 2),
   (cps ''green'', 3),
   (cps ''cyan'', 4),
   (cps ''blue'', 5),
   (cps ''magenta'', 6),
   (cps ''white'', 7),
   (cps ''gray'', 8),
   (cps ''grey'', 8),
   (cps ''black'', 250),
   (cps ''orange'', 30),
   (cps ''brown'', 33),
   (cps ''purple'', 200),
   (cps ''pink'', 221),
   (cps ''rosso'', 1),
   (cps ''rossa'', 1),
   (cps ''giallo'', 2),
   (cps ''gialla'', 2),
   (cps ''verde'', 3),
   (cps ''ciano'', 4),
   (cps ''blu'', 5),
   (cps ''azzurro'', 5),
   (cps ''azzurra'', 5),
   (cps ''bianco'', 7),
   (cps ''bianca'', 7),
   (cps ''grigio'', 8),
   (cps ''grigia'', 8),
   (cps ''nero'', 250),
   (cps ''nera'', 250),
   (cps ''arancione'', 30),
   (cps ''marrone'', 33),
   (cps ''viola'', 200),
   (cps ''rosa'', 221),
   ([0x7EA2], 1),
   ([0x7EA2, 0x8272], 1),
   ([0x9EC4], 2),
   ([0x9EC4, 0x8272], 2),
   ([0x7EFF], 3),
   ([0x7EFF, 0x8272], 3),
   ([0x9752], 4),
   ([0x9752, 0x8272], 4),
   ([0x84DD], 5),
   ([0x84DD, 0x8272], 5),
   ([0x6D0B, 0x7EA2], 6),
   ([0x6D0B, 0x7EA2, 0x8272], 6),
   ([0x7D2B, 0x7EA2], 6),
   ([0x767D], 7),
   ([0x767D, 0x8272], 7),
   ([0x7070], 8),
   ([0x7070, 0x8272], 8),
   ([0x9ED1], 250),
   ([0x9ED1, 0x8272], 250),
   ([0x6A59], 30),
   ([0x6A59, 0x8272], 30),
   ([0x68D5], 33),
   ([0x68D5, 0x8272], 33),
   ([0x7D2B], 200),
   ([0x7D2B, 0x8272], 200),
   ([0x7C89], 221),
   ([0x7C89, 0x8272], 221),
   ([0x7C89, 0x7EA2], 221)]"

definition SHAPE_KEYWORDS :: "(ustr \<times> string) list" where
  "SHAPE_KEYWORDS =
  [(cps ''line'', ''line''),
   (cps ''circle'', ''circle''),
   (cps ''arc'', ''arc''),
   (cps ''ellipse'', ''ellipse''),
   (cps ''rectangle'', ''rectangle''),
   (cps ''rect'', ''rectangle''),
   (cps ''square'', ''rectangle''),
   (cps ''polyline'', ''polyline''),
   (cps ''polygon'', ''polyline''),
   (cps ''text'', ''text''),
   (cps ''dimension'', ''dimension''),
   (cps ''hatch'', ''hatch''),
   (cps ''fill'', ''hatch''),
   (cps ''linea'', ''line''),
   (cps ''cerchio'', ''circle''),
   (cps ''arco'', ''arc''),
   (cps ''ellisse'', ''ellipse''),
   (cps ''rettangolo'', ''rectangle''),
   (cps ''quadrato'', ''rectangle''),
   (cps ''polilinea'', ''polyline''),
   (cps ''poligono'', ''polyline''),
   (cps ''testo'', ''text''),
   (cps ''quota'', ''dimension''),
   (cps ''quotatura'', ''dimension''),
   (cps ''riempimento'', ''hatch''),
   (cps ''tratteggio'', ''hatch''),
   ([0x7EBF], ''line''),
   ([0x76F4, 0x7EBF], ''line''),
   ([0x5706], ''circle''),
   ([0x5706, 0x5F62], ''circle''),
   ([0x5F27], ''arc''),
   ([0x5706, 0x5F27], ''arc''),
   ([0x692D, 0x5706], ''ellipse''),
   ([0x692D, 0x5706, 0x5F62], ''ellipse''),
   ([0x77E9, 0x5F62], ''rectangle''),
   ([0x65B9, 0x5F62], ''rectangle''),
   ([0x6B63, 0x65B9, 0x5F62], ''rectangle''),
   ([0x591A, 0x6BB5, 0x7EBF], ''polyline''),
   ([0x6298, 0x7EBF], ''polyline''),
   ([0x591A, 0x8FB9, 0x5F62], ''polyline''),
   ([0x6587, 0x5B57], ''text''),
   ([0x6587, 0x672C], ''text''),
   ([0x6807, 0x6CE8], ''dimension''),
   ([0x5C3A, 0x5BF8], ''dimension''),
   ([0x586B, 0x5145], ''hatch''),
   ([0x56FE, 0x6848, 0x586B, 0x5145], ''hatch'')]"

definition ACTION_KEYWORDS :: "(ustr \<times> string) list" where
  "ACTION_KEYWORDS =
  [(cps ''draw'', ''draw''),
   (cps ''create'', ''draw''),
   (cps ''add'', ''draw''),
   (cps ''make'', ''draw''),
   (cps ''place'', ''draw''),
   (cps ''insert'', ''draw''),
   (cps ''modify'', ''modify''),
   (cps ''change'', ''modify''),
   (cps ''edit'', ''modify''),
   (cps ''move'', ''move''),
   (cps ''rotate'', ''rotate''),
   (cps ''scale'', ''scale''),
   (cps ''resize'', ''scale''),
   (cps ''delete'', ''erase''),
   (cps ''remove'', ''erase''),
   (cps ''erase'', ''erase''),
   (cps ''save'', ''save''),
   (cps ''disegna'', ''draw''),
   (cps ''crea'', ''draw''),
   (cps ''aggiungi'', ''draw''),
   (cps ''inserisci'', ''draw''),
   (cps ''traccia'', ''draw''),
   (cps ''modifica'', ''modify''),
   (cps ''cambia'', ''modify''),
   (cps ''sposta'', ''move''),
   (cps ''ruota'', ''rotate''),
   (cps ''scala'', ''scale''),
   (cps ''ridimensiona'', ''scale''),
   (cps ''elimina'', ''erase''),
   (cps ''cancella'', ''erase''),
   (cps ''rimuovi'', ''erase''),
   (cps ''salva'', ''save''),
   ([0x753B], ''draw''),
   ([0x7ED8, 0x5236], ''draw''),
   ([0x521B, 0x5EFA], ''draw''),
   ([0x6DFB, 0x52A0], ''draw''),
   ([0x5236, 0x4F5C], ''draw''),
   ([0x653E, 0x7F6E], ''draw''),
   ([0x4FEE, 0x6539], ''modify''),
   ([0x66F4, 0x6539], ''modify''),
   ([0x8C03, 0x6574], ''modify''),
   ([0x79FB, 0x52A8], ''move''),
   ([0x65CB, 0x8F6C], ''rotate''),
   ([0x7F29, 0x653E], ''scale''),
   ([0x5220, 0x9664], ''erase''),
   ([0x79FB, 0x9664], ''erase''),
   ([0x64E6, 0x9664], ''erase''),
   ([0x4FDD, 0x5B58], ''save'')]"

section \<open>The parsed command and its parameters\<close>

text \<open>
  A parameter value is a number (Python's \<open>50\<close> and \<open>50.0\<close> compare equal and are one
  value here), a pair of numbers, a list of pairs, a string or a boolean. The parameter
  dictionary keeps its insertion order: an association list, \<open>params[k] = v\<close> being
  \<open>AList.update\<close>.
\<close>

datatype pyval = Num real | Point "real \<times> real" | Points "(real \<times> real) list" | Str ustr | Bool bool

type_synonym params = "(string \<times> pyval) list"

record parsed_command =
  action :: string
  shape :: "string option"
  parameters :: params
  raw_text :: ustr
  confidence :: real

section \<open>Patterns\<close>

text \<open>\<open>-?\d+\.?\d*\<close> and \<open>\d+\.?\d*\<close>.\<close>

definition SNUM :: rx where
  "SNUM = seqs [Opt (One (Lit 0x2D)), Plus Digit, Opt (One (Lit 0x2E)), Star Digit]"

definition UNUM :: rx where
  "UNUM = seqs [Plus Digit, Opt (One (Lit 0x2E)), Star Digit]"

text \<open>\<open>\(?\s*(-?\d+\.?\d*)\s*,\s*(-?\d+\.?\d*)\s*\)?\<close>\<close>

definition COORD_PATTERN :: rx where
  "COORD_PATTERN =
     seqs [Opt (One (Lit 0x28)), Star Space, Grp 1 SNUM, Star Space, One (Lit 0x2C),
           Star Space, Grp 2 SNUM, Star Space, Opt (One (Lit 0x29))]"

text \<open>\<open>(-?\d+\.?\d*)\<close>\<close>

definition NUMBER_PATTERN :: rx where
  "NUMBER_PATTERN = Grp 1 SNUM"

text \<open>
  \<open>["\']([^"\']+)["\']|"([^"]+)"|\<close> and the corner-bracket alternative: U+300C, a
  group of characters other than U+300D, U+300D.
\<close>

definition QUOTED_TEXT_PATTERN :: rx where
  "QUOTED_TEXT_PATTERN =
     alts [seqs [One (OneOf [0x22, 0x27]), Grp 1 (Plus (NoneOf [0x22, 0x27])), One (OneOf [0x22, 0x27])],
           seqs [One (Lit 0x22), Grp 2 (Plus (NoneOf [0x22])), One (Lit 0x22)],
           seqs [One (Lit 0x300C), Grp 3 (Plus (NoneOf [0x300D])), One (Lit 0x300D)]]"

text \<open>
  The keyword patterns of the shape parsers: \<open>kw\s*[=:]?\s*(\d+\.?\d*)\<close>, and with an
  optional second word \<open>kw\s*(?:opt)?\s*[=:]?\s*(\d+\.?\d*)\<close>.
\<close>

definition keyword_rx :: "ustr \<Rightarrow> rx" where
  "keyword_rx kw =
     seqs [word_rx kw, Star Space, Opt (One (OneOf [0x3D, 0x3A])), Star Space, Grp 1 UNUM]"

definition keyword_opt_rx :: "ustr \<Rightarrow> ustr \<Rightarrow> rx" where
  "keyword_opt_rx kw opt =
     seqs [word_rx kw, Star Space, Opt (word_rx opt), Star Space,
           Opt (One (OneOf [0x3D, 0x3A])), Star Space, Grp 1 UNUM]"

text \<open>\<open>pattern\s*[=:]?\s*(\w+)\<close> and \<open>(\S+\.dwg)\<close>.\<close>

definition HATCH_PATTERN_RX :: rx where
  "HATCH_PATTERN_RX =
     seqs [word_rx (cps ''pattern''), Star Space, Opt (One (OneOf [0x3D, 0x3A])), Star Space,
           Grp 1 (Plus Word)]"

definition DWG_RX :: rx where
  "DWG_RX = Grp 1 (seqs [Plus NonSpace, One (Lit 0x2E), word_rx (cps ''dwg'')])"

section \<open>NLPProcessor\<close>

text \<open>
  \<open>_build_color_pattern\<close>: the keys of \<open>COLOR_MAP\<close> sorted by length, longest first
  (Python's sort is stable, also with \<open>reverse=True\<close>), joined into one alternation and
  compiled with \<open>re.IGNORECASE\<close>.
\<close>

definition sorted_colors :: "ustr list" where
  "sorted_colors = sort_key (\<lambda>k. - int (length k)) (map fst COLOR_MAP)"

definition color_pattern :: rx where
  "color_pattern = alts (map word_rx sorted_colors)"

definition extract_color :: "unicode \<Rightarrow> ustr \<Rightarrow> nat option" where
  "extract_color U t =
     (case re_search U True color_pattern t of
        Some m \<Rightarrow> map_of COLOR_MAP (u_lower U (m_text m))
      | None \<Rightarrow> None)"

text \<open>The loop over the matches: each match converted in turn, the first error raised.\<close>

fun collect :: "(rmatch \<Rightarrow> error + 'a) \<Rightarrow> rmatch list \<Rightarrow> error + 'a list" where
  "collect f [] = Inr []"
| "collect f (m # ms) = bindE (f m) (\<lambda>v. bindE (collect f ms) (\<lambda>vs. Inr (v # vs)))"

definition coord_of :: "unicode \<Rightarrow> rmatch \<Rightarrow> error + (real \<times> real)" where
  "coord_of U m = bindE (float_group U m 1) (\<lambda>x. bindE (float_group U m 2) (\<lambda>y. Inr (x, y)))"

definition extract_coordinates :: "unicode \<Rightarrow> ustr \<Rightarrow> error + (real \<times> real) list" where
  "extract_coordinates U t = collect (coord_of U) (finditer U False COORD_PATTERN t)"

definition extract_numbers :: "unicode \<Rightarrow> ustr \<Rightarrow> error + real list" where
  "extract_numbers U t =
     collect (\<lambda>m. float_group U m 1) (finditer U False NUMBER_PATTERN t)"

text \<open>
  \<open>next((g for g in match.groups() if g), None)\<close>: the first group that is neither
  \<open>None\<close> nor empty.
\<close>

fun first_truthy :: "ustr option list \<Rightarrow> ustr option" where
  "first_truthy [] = None"
| "first_truthy (None # gs) = first_truthy gs"
| "first_truthy (Some s # gs) = (if s \<noteq> [] then Some s else first_truthy gs)"

definition extract_quoted_text :: "unicode \<Rightarrow> ustr \<Rightarrow> ustr option" where
  "extract_quoted_text U t =
     (case re_search U False QUOTED_TEXT_PATTERN t of
        Some m \<Rightarrow> first_truthy [m_groups m 1, m_groups m 2, m_groups m 3]
      | None \<Rightarrow> None)"

text \<open>
  \<open>identify_action\<close> and \<open>identify_shape\<close> run the same loop over their table, in
  insertion order: the tag of the first keyword whose lower-cased form occurs in the
  lower-cased text.
\<close>

fun first_keyword :: "unicode \<Rightarrow> ustr \<Rightarrow> (ustr \<times> string) list \<Rightarrow> string option" where
  "first_keyword U text_lower [] = None"
| "first_keyword U text_lower ((keyword, tag) # rest) =
     (if py_in (u_lower U keyword) text_lower then Some tag
      else first_keyword U text_lower rest)"

definition identify_action :: "unicode \<Rightarrow> ustr \<Rightarrow> string option" where
  "identify_action U t = first_keyword U (u_lower U t) ACTION_KEYWORDS"

definition identify_shape :: "unicode \<Rightarrow> ustr \<Rightarrow> string option" where
  "identify_shape U t = first_keyword U (u_lower U t) SHAPE_KEYWORDS"

text \<open>\<open>if m: params[key] = float(m.group(1))\<close>\<close>

definition set_float :: "unicode \<Rightarrow> string \<Rightarrow> rmatch option \<Rightarrow> params \<Rightarrow> error + params" where
  "set_float U key mo ps =
     (case mo of
        None \<Rightarrow> Inr ps
      | Some m \<Rightarrow> bindE (float_group U m 1) (\<lambda>v. Inr (AList.update key (Num v) ps)))"

text \<open>\<open>if m: x = float(m.group(1))\<close>, for a local variable with current value \<open>x\<close>.\<close>

definition float_or :: "unicode \<Rightarrow> rmatch option \<Rightarrow> real \<Rightarrow> error + real" where
  "float_or U mo x = (case mo of None \<Rightarrow> Inr x | Some m \<Rightarrow> float_group U m 1)"

text \<open>\<open>coords[0] if coords else (0, 0)\<close>\<close>

definition first_or_origin :: "(real \<times> real) list \<Rightarrow> error + (real \<times> real)" where
  "first_or_origin coords = (if coords \<noteq> [] then py_index coords 0 else Inr (0, 0))"

definition parse_generic :: "unicode \<Rightarrow> ustr \<Rightarrow> error + params" where
  "parse_generic U t =
     bindE (extract_coordinates U t) (\<lambda>coords.
       Inr (if coords \<noteq> [] then AList.update ''points'' (Points coords) [] else []))"

definition parse_line :: "unicode \<Rightarrow> ustr \<Rightarrow> error + params" where
  "parse_line U t =
     bindE (extract_coordinates U t) (\<lambda>coords.
       if length coords \<ge> 2 then
         bindE (py_index coords 0) (\<lambda>c0. bindE (py_index coords 1) (\<lambda>c1.
           Inr [(''start'', Point c0), (''end'', Point c1)]))
       else Inr [(''start'', Point (0, 0)), (''end'', Point (100, 100))])"

definition parse_circle :: "unicode \<Rightarrow> ustr \<Rightarrow> error + params" where
  "parse_circle U t =
     bindE (extract_coordinates U t) (\<lambda>coords.
     bindE (extract_numbers U t) (\<lambda>numbers.
     bindE (first_or_origin coords) (\<lambda>center.
       let params = AList.update ''center'' (Point center) [];
           radius_match =
             (case re_search U True (keyword_rx (cps ''radius'')) t of
                Some m \<Rightarrow> Some m
              | None \<Rightarrow> re_search U False (keyword_rx [0x534A, 0x5F84]) t)
       in case radius_match of
            Some m \<Rightarrow>
              bindE (float_group U m 1) (\<lambda>v. Inr (AList.update ''radius'' (Num v) params))
          | None \<Rightarrow>
              if coords \<noteq> [] \<and> length numbers > 2 then
                let coord_numbers = length coords * 2;
                    remaining_numbers = drop coord_numbers numbers
                in if remaining_numbers \<noteq> [] then
                     bindE (py_index remaining_numbers 0) (\<lambda>v.
                       Inr (AList.update ''radius'' (Num v) params))
                   else Inr (AList.update ''radius'' (Num 50) params)
              else if coords = [] \<and> numbers \<noteq> [] then
                bindE (py_index numbers 0) (\<lambda>v. Inr (AList.update ''radius'' (Num v) params))
              else Inr (AList.update ''radius'' (Num 50) params))))"

definition parse_arc :: "unicode \<Rightarrow> ustr \<Rightarrow> error + params" where
  "parse_arc U t =
     bindE (extract_coordinates U t) (\<lambda>coords.
     bindE (extract_numbers U t) (\<lambda>numbers.
     bindE (first_or_origin coords) (\<lambda>center.
     bindE (set_float U ''radius'' (re_search U True (keyword_rx (cps ''radius'')) t)
              [(''center'', Point center), (''radius'', Num 50),
               (''start_angle'', Num 0), (''end_angle'', Num 90)]) (\<lambda>params.
     bindE (set_float U ''start_angle''
              (re_search U True (keyword_opt_rx (cps ''start'') (cps ''angle'')) t) params) (\<lambda>params.
     bindE (set_float U ''end_angle''
              (re_search U True (keyword_opt_rx (cps ''end'') (cps ''angle'')) t) params) (\<lambda>params.
     bindE (set_float U ''start_angle''
              (re_search U False (keyword_rx [0x8D77, 0x59CB, 0x89D2]) t) params) (\<lambda>params.
     set_float U ''end_angle''
              (re_search U False (keyword_rx [0x7EC8, 0x6B62, 0x89D2]) t) params)))))))"

definition parse_ellipse :: "unicode \<Rightarrow> ustr \<Rightarrow> error + params" where
  "parse_ellipse U t =
     bindE (extract_coordinates U t) (\<lambda>coords.
     bindE (extract_numbers U t) (\<lambda>numbers.
     bindE (first_or_origin coords) (\<lambda>center.
     bindE (set_float U ''major_axis''
              (re_search U True (keyword_opt_rx (cps ''major'') (cps ''axis'')) t)
              [(''center'', Point center), (''major_axis'', Num 100),
               (''minor_axis'', Num 50), (''rotation'', Num 0)]) (\<lambda>params.
     bindE (set_float U ''minor_axis''
              (re_search U True (keyword_opt_rx (cps ''minor'') (cps ''axis'')) t) params) (\<lambda>params.
     set_float U ''rotation'' (re_search U True (keyword_rx (cps ''rotation'')) t) params)))))"

definition parse_rectangle :: "unicode \<Rightarrow> ustr \<Rightarrow> error + params" where
  "parse_rectangle U t =
     bindE (extract_coordinates U t) (\<lambda>coords.
     bindE (extract_numbers U t) (\<lambda>numbers.
       if length coords \<ge> 2 then
         bindE (py_index coords 0) (\<lambda>c0. bindE (py_index coords 1) (\<lambda>c1.
           Inr [(''corner1'', Point c0), (''corner2'', Point c1)]))
       else
         bindE (float_or U (re_search U True (keyword_rx (cps ''width'')) t) 100) (\<lambda>width.
         bindE (float_or U (re_search U True (keyword_rx (cps ''height'')) t) 50) (\<lambda>height.
         bindE (float_or U (re_search U False (keyword_rx [0x5BBD]) t) width) (\<lambda>width.
         bindE (float_or U (re_search U False (keyword_rx [0x9AD8]) t) height) (\<lambda>height.
           Inr [(''corner1'', Point (0, 0)), (''corner2'', Point (width, height))]))))))"

definition parse_polyline :: "unicode \<Rightarrow> ustr \<Rightarrow> error + params" where
  "parse_polyline U t =
     bindE (extract_coordinates U t) (\<lambda>coords.
       let closed = list_ex (\<lambda>kw. py_in kw (u_lower U t))
                      [cps ''closed'', cps ''close'', [0x95ED, 0x5408], [0x5C01, 0x95ED]]
       in if length coords \<ge> 2 then
            Inr [(''points'', Points coords), (''closed'', Bool closed)]
          else
            Inr [(''points'', Points [(0, 0), (50, 50), (100, 0)]), (''closed'', Bool closed)])"

definition parse_text :: "unicode \<Rightarrow> ustr \<Rightarrow> error + params" where
  "parse_text U t =
     bindE (extract_coordinates U t) (\<lambda>coords.
       let content = (case extract_quoted_text U t of
                        Some s \<Rightarrow> if s \<noteq> [] then s else cps ''Text''
                      | None \<Rightarrow> cps ''Text'')
       in
     bindE (first_or_origin coords) (\<lambda>position.
     bindE (set_float U ''height'' (re_search U True (keyword_rx (cps ''height'')) t)
              [(''position'', Point position), (''text'', Str content),
               (''height'', Num 2.5), (''rotation'', Num 0)]) (\<lambda>params.
     bindE (set_float U ''height'' (re_search U False (keyword_rx [0x9AD8, 0x5EA6]) t) params) (\<lambda>params.
     set_float U ''rotation'' (re_search U True (keyword_rx (cps ''rotation'')) t) params))))"

definition parse_dimension :: "unicode \<Rightarrow> ustr \<Rightarrow> error + params" where
  "parse_dimension U t =
     bindE (extract_coordinates U t) (\<lambda>coords.
       if length coords \<ge> 2 then
         bindE (py_index coords 0) (\<lambda>c0. bindE (py_index coords 1) (\<lambda>c1.
           let mid_x = (fst c0 + fst c1) / 2;
               mid_y = (snd c0 + snd c1) / 2 + 10
           in bindE (if length coords < 3 then Inr (mid_x, mid_y) else py_index coords 2) (\<lambda>tp.
                Inr [(''start'', Point c0), (''end'', Point c1), (''text_position'', Point tp)])))
       else
         Inr [(''start'', Point (0, 0)), (''end'', Point (100, 0)),
              (''text_position'', Point (50, 10))])"

definition parse_hatch :: "unicode \<Rightarrow> ustr \<Rightarrow> error + params" where
  "parse_hatch U t =
     bindE (extract_coordinates U t) (\<lambda>coords.
       let params =
             [(''boundary_points'',
               Points (if length coords \<ge> 3 then coords
                       else [(0, 0), (100, 0), (100, 100), (0, 100)])),
              (''pattern_name'', Str (cps ''SOLID'')),
              (''pattern_scale'', Num 1.0)]
       in
     bindE (case re_search U True HATCH_PATTERN_RX t of
              None \<Rightarrow> Inr params
            | Some m \<Rightarrow>
                (case m_groups m 1 of
                   None \<Rightarrow> Inl AttributeError
                 | Some s \<Rightarrow> Inr (AList.update ''pattern_name'' (Str (u_upper U s)) params))) (\<lambda>params.
     set_float U ''pattern_scale'' (re_search U True (keyword_rx (cps ''scale'')) t) params))"

definition parse_save :: "unicode \<Rightarrow> ustr \<Rightarrow> error + params" where
  "parse_save U t =
     (let path = extract_quoted_text U t;
          path = (if path = None \<or> path = Some [] then
                    (case re_search U True DWG_RX t of
                       Some m \<Rightarrow> m_groups m 1
                     | None \<Rightarrow> path)
                  else path)
      in Inr [(''file_path'',
               Str (case path of
                      Some p \<Rightarrow> if p \<noteq> [] then p else cps ''drawing.dwg''
                    | None \<Rightarrow> cps ''drawing.dwg''))])"

text \<open>
  \<open>getattr(self, f"_parse_{shape}", None)\<close>: the methods of the class whose name starts
  with \<open>_parse_\<close>.
\<close>

definition parser_method :: "string \<Rightarrow> (unicode \<Rightarrow> ustr \<Rightarrow> error + params) option" where
  "parser_method sh =
     (if sh = ''generic'' then Some parse_generic
      else if sh = ''line'' then Some parse_line
      else if sh = ''circle'' then Some parse_circle
      else if sh = ''arc'' then Some parse_arc
      else if sh = ''ellipse'' then Some parse_ellipse
      else if sh = ''rectangle'' then Some parse_rectangle
      else if sh = ''polyline'' then Some parse_polyline
      else if sh = ''text'' then Some parse_text
      else if sh = ''dimension'' then Some parse_dimension
      else if sh = ''hatch'' then Some parse_hatch
      else if sh = ''save'' then Some parse_save
      else None)"

text \<open>\<open>x or "draw"\<close>, \<open>not x\<close>: \<open>None\<close> and the empty string are false.\<close>

definition falsy :: "string option \<Rightarrow> bool" where
  "falsy x = (x = None \<or> x = Some [])"

definition parse_command :: "unicode \<Rightarrow> ustr \<Rightarrow> error + parsed_command" where
  "parse_command U t =
     (let a = identify_action U t;
          action = (if falsy a then ''draw'' else the a);
          shape = identify_shape U t
      in if falsy shape then
           Inr \<lparr>action = action, shape = None, parameters = [], raw_text = t, confidence = 0.3\<rparr>
         else
           bindE (case parser_method (the shape) of
                    Some parser \<Rightarrow> parser U t
                  | None \<Rightarrow> parse_generic U t) (\<lambda>params.
             let params = (case extract_color U t of
                             Some color \<Rightarrow> AList.update ''color'' (Num (real color)) params
                           | None \<Rightarrow> params)
             in Inr \<lparr>action = action, shape = shape, parameters = params, raw_text = t,
                     confidence = (if params \<noteq> [] then 0.8 else 0.5)\<rparr>))"

text \<open>
  A sample of the runtime's tables, for evaluating the parser on concrete texts: Basic
  Latin case mapping, the ASCII digits, Python's whitespace, and the word characters of
  Basic Latin and the CJK Unified Ideographs. It agrees with Python on the code
  points of Basic Latin and on the CJK ideographs and punctuation, which have no case.
\<close>

definition ascii_lower1 :: "nat \<Rightarrow> nat" where
  "ascii_lower1 c = (if 65 \<le> c \<and> c \<le> 90 then c + 32 else c)"

definition ascii_upper1 :: "nat \<Rightarrow> nat" where
  "ascii_upper1 c = (if 97 \<le> c \<and> c \<le> 122 then c - 32 else c)"

definition basic_tables :: unicode where
  "basic_tables =
     \<lparr>u_lower = map ascii_lower1,
      u_upper = map ascii_upper1,
      u_casevar = (\<lambda>p c. ascii_lower1 c = ascii_lower1 p),
      u_digit = (\<lambda>c. if 48 \<le> c \<and> c \<le> 57 then Some (c - 48) else None),
      u_space = (\<lambda>c. c \<in> {9, 10, 11, 12, 13, 28, 29, 30, 31, 32, 0x3000}),
      u_word = (\<lambda>c. (48 \<le> c \<and> c \<le> 57) \<or> (65 \<le> c \<and> c \<le> 90) \<or> (97 \<le> c \<and> c \<le> 122)
                     \<or> c = 95 \<or> (0x4E00 \<le> c \<and> c \<le> 0x9FFF))\<rparr>"

section \<open>Notions used in the statements and proofs\<close>

text \<open>
  Four facts of the Unicode database that the proofs about numeric conversion rely on:
  plus, minus and full stop are not decimal digits, and the full stop has no case variant.
\<close>

definition tables_ok :: "unicode \<Rightarrow> bool" where
  "tables_ok U =
     (u_digit U 0x2B = None \<and> u_digit U 0x2D = None \<and> u_digit U 0x2E = None \<and>
      (\<forall>c. u_casevar U 0x2E c \<longrightarrow> c = 0x2E))"

text \<open>\<open>float(w)\<close> returns.\<close>

definition float_ok :: "unicode \<Rightarrow> ustr \<Rightarrow> bool" where
  "float_ok U w = (case py_float U w of Inr v \<Rightarrow> True | Inl e \<Rightarrow> False)"

text \<open>The part of \<open>s\<close> that a path ending at \<open>rest\<close> has consumed.\<close>

definition consumed :: "ustr \<Rightarrow> ustr \<Rightarrow> ustr" where
  "consumed s rest = take (length s - length rest) s"

text \<open>
  \<open>grp_inv U ic Q r\<close>: whatever a capture group of \<open>r\<close> captures satisfies \<open>Q\<close>;
  \<open>sets_group i r\<close>: every match of \<open>r\<close> sets group \<open>i\<close>.
\<close>

fun grp_inv :: "unicode \<Rightarrow> bool \<Rightarrow> (ustr \<Rightarrow> bool) \<Rightarrow> rx \<Rightarrow> bool" where
  "grp_inv U ic Q (Grp i r) =
     (grp_inv U ic Q r \<and>
      (\<forall>g s g' rest. (g', rest) \<in> set (paths U ic r (g, s)) \<longrightarrow>
         Q (take (length s - length rest) s)))"
| "grp_inv U ic Q (Seq r1 r2) = (grp_inv U ic Q r1 \<and> grp_inv U ic Q r2)"
| "grp_inv U ic Q (Alt r1 r2) = (grp_inv U ic Q r1 \<and> grp_inv U ic Q r2)"
| "grp_inv U ic Q (Opt r) = grp_inv U ic Q r"
| "grp_inv U ic Q r = True"

fun sets_group :: "nat \<Rightarrow> rx \<Rightarrow> bool" where
  "sets_group i (Grp j r) = (j = i \<or> sets_group i r)"
| "sets_group i (Seq r1 r2) = (sets_group i r1 \<or> sets_group i r2)"
| "sets_group i (Alt r1 r2) = (sets_group i r1 \<and> sets_group i r2)"
| "sets_group i r = False"

text \<open>The value of \<open>float(m.group(i))\<close> where it returns.\<close>

definition group_value :: "unicode \<Rightarrow> rmatch \<Rightarrow> nat \<Rightarrow> real" where
  "group_value U m i = (case float_group U m i of Inr v \<Rightarrow> v | Inl e \<Rightarrow> 0)"

text \<open>Every captured group satisfies \<open>Q\<close>.\<close>

definition caps_ok :: "(ustr \<Rightarrow> bool) \<Rightarrow> groups \<Rightarrow> bool" where
  "caps_ok Q g = (\<forall>i w. g i = Some w \<longrightarrow> Q w)"

text \<open>
  The coordinate pairs and numbers that the extractors return, and the value that a
  keyword pattern captures where it is found, as total functions.
\<close>

definition coords_of :: "unicode \<Rightarrow> ustr \<Rightarrow> (real \<times> real) list" where
  "coords_of U t =
     map (\<lambda>m. (group_value U m 1, group_value U m 2)) (finditer U False COORD_PATTERN t)"

definition numbers_of :: "unicode \<Rightarrow> ustr \<Rightarrow> real list" where
  "numbers_of U t = map (\<lambda>m. group_value U m 1) (finditer U False NUMBER_PATTERN t)"

definition keyword_value :: "unicode \<Rightarrow> bool \<Rightarrow> rx \<Rightarrow> ustr \<Rightarrow> real option" where
  "keyword_value U ic r t = map_option (\<lambda>m. group_value U m 1) (re_search U ic r t)"

text \<open>
  The radius and centre of a circle as the specification words them: the value of an
  explicit \<open>radius\<close> keyword, else that of the Chinese keyword (U+534A U+5F84); else, with
  coordinates, the first number left after dropping two numbers per coordinate pair; else,
  without coordinates, the first number; else 50. The centre is the first coordinate pair
  or the origin.
\<close>

definition spec_circle_radius :: "unicode \<Rightarrow> ustr \<Rightarrow> real" where
  "spec_circle_radius U t =
     (let coords = coords_of U t; numbers = numbers_of U t in
      case keyword_value U True (keyword_rx (cps ''radius'')) t of
        Some v \<Rightarrow> v
      | None \<Rightarrow>
          (case keyword_value U False (keyword_rx [0x534A, 0x5F84]) t of
             Some v \<Rightarrow> v
           | None \<Rightarrow>
               if coords \<noteq> [] \<and> drop (2 * length coords) numbers \<noteq> []
               then hd (drop (2 * length coords) numbers)
               else if coords = [] \<and> numbers \<noteq> [] then hd numbers
               else 50))"

definition spec_center :: "unicode \<Rightarrow> ustr \<Rightarrow> real \<times> real" where
  "spec_center U t = (case coords_of U t of [] \<Rightarrow> (0, 0) | c # cs \<Rightarrow> c)"

text \<open>The literal \<open>n\<close> matches at the start of \<open>s\<close>, character by character.\<close>

fun lit_prefix :: "unicode \<Rightarrow> bool \<Rightarrow> ustr \<Rightarrow> ustr \<Rightarrow> bool" where
  "lit_prefix U ic [] s = True"
| "lit_prefix U ic (p # ps) [] = False"
| "lit_prefix U ic (p # ps) (c # cs) = (lit_ok U ic p c \<and> lit_prefix U ic ps cs)"

section \<open>Evaluation on concrete texts\<close>

lemmas eval_defs = cps_def bindE_def py_index_def py_float_def unsigned_float_def is_dec_def lit_ok_def
  match_at_def next_input_def float_group_def SNUM_def UNUM_def COORD_PATTERN_def NUMBER_PATTERN_def
  QUOTED_TEXT_PATTERN_def keyword_rx_def keyword_opt_rx_def HATCH_PATTERN_RX_def DWG_RX_def
  extract_coordinates_def extract_numbers_def coord_of_def extract_quoted_text_def
  set_float_def float_or_def first_or_origin_def
  parser_method_def falsy_def basic_tables_def ascii_lower1_def ascii_upper1_def paths.simps

section \<open>Keyword lookup\<close>

lemma py_in_sublist: "py_in kw t = sublist kw t"
proof (induction t)
  case Nil
  then show ?case by auto
next
  case (Cons c cs)
  then show ?case by (cases kw) (auto simp: sublist_Cons_right)
qed

lemma first_keyword_find:
  "first_keyword U lo tbl =
     map_option snd (find (\<lambda>(kw, tag). sublist (u_lower U kw) lo) tbl)"
  by (induction tbl) (auto simp: py_in_sublist)

lemma first_keyword_None:
  "first_keyword U lo tbl = None \<longleftrightarrow> (\<forall>(kw, tag) \<in> set tbl. \<not> sublist (u_lower U kw) lo)"
  by (induction tbl) (auto simp: py_in_sublist split: if_splits)

lemma first_keyword_index:
  assumes "i < length tbl" "sublist (u_lower U (fst (tbl ! i))) lo"
    "\<forall>j<i. \<not> sublist (u_lower U (fst (tbl ! j))) lo"
  shows "first_keyword U lo tbl = Some (snd (tbl ! i))"
  using assms
proof (induction tbl arbitrary: i)
  case Nil
  then show ?case by simp
next
  case (Cons e tbl)
  obtain kw tag where e: "e = (kw, tag)" by (cases e)
  show ?case
  proof (cases i)
    case 0
    with Cons.prems e show ?thesis by (simp add: py_in_sublist)
  next
    case (Suc k)
    from Cons.prems(3) Suc have no0: "\<not> sublist (u_lower U kw) lo"
      using e by (metis fst_conv nth_Cons_0 zero_less_Suc)
    have "\<forall>j<k. \<not> sublist (u_lower U (fst (tbl ! j))) lo"
      using Cons.prems(3) Suc by (metis Suc_less_eq nth_Cons_Suc)
    with Cons.IH[of k] Cons.prems(1,2) Suc
    have "first_keyword U lo tbl = Some (snd (tbl ! k))" by simp
    with no0 e Suc show ?thesis by (simp add: py_in_sublist)
  qed
qed

lemma tags_nonempty:
  "first_keyword U lo ACTION_KEYWORDS \<noteq> Some []" "first_keyword U lo SHAPE_KEYWORDS \<noteq> Some []"
proof -
  have "first_keyword U lo tbl = Some x \<Longrightarrow> x \<in> snd ` set tbl" for tbl x
    by (induction tbl) (auto split: if_splits)
  moreover have "[] \<notin> snd ` set ACTION_KEYWORDS" "[] \<notin> snd ` set SHAPE_KEYWORDS"
    by (simp_all add: ACTION_KEYWORDS_def SHAPE_KEYWORDS_def)
  ultimately show "first_keyword U lo ACTION_KEYWORDS \<noteq> Some []" "first_keyword U lo SHAPE_KEYWORDS \<noteq> Some []"
    by blast+
qed

section \<open>Paths of the matcher\<close>


lemma consumed_append [simp]: "consumed (w @ rest) rest = w"
  by (simp add: consumed_def)

lemma paths_One_iff:
  "(g', rest) \<in> set (paths U ic (One c) (g, s)) \<longleftrightarrow> g' = g \<and> (\<exists>x. s = x # rest \<and> cls_ok U ic c x)"
  by (cases s) auto

lemma paths_Star_iff:
  "(g', rest) \<in> set (paths U ic (Star c) (g, s)) \<longleftrightarrow>
     g' = g \<and> (\<exists>k. k \<le> length (takeWhile (cls_ok U ic c) s) \<and> rest = drop k s)"
  by (auto simp del: upt_Suc simp: image_iff less_Suc_eq_le)

lemma paths_Plus_iff:
  "(g', rest) \<in> set (paths U ic (Plus c) (g, s)) \<longleftrightarrow>
     g' = g \<and> (\<exists>k. 1 \<le> k \<and> k \<le> length (takeWhile (cls_ok U ic c) s) \<and> rest = drop k s)"
  by (auto simp del: upt_Suc simp: image_iff less_Suc_eq_le)

lemma paths_Seq_iff:
  "st' \<in> set (paths U ic (Seq r1 r2) st) \<longleftrightarrow>
     (\<exists>st1 \<in> set (paths U ic r1 st). st' \<in> set (paths U ic r2 st1))"
  by auto

lemma paths_Opt_iff:
  "st' \<in> set (paths U ic (Opt r) st) \<longleftrightarrow> st' \<in> set (paths U ic r st) \<or> st' = st"
  by auto

lemma paths_Grp_iff:
  "(g', rest) \<in> set (paths U ic (Grp i r) (g, s)) \<longleftrightarrow>
     (\<exists>g1. (g1, rest) \<in> set (paths U ic r (g, s)) \<and> g' = g1(i \<mapsto> take (length s - length rest) s))"
  by (force simp: image_iff)

lemma take_run:
  "k \<le> length (takeWhile P s) \<Longrightarrow> list_all P (take k s)"
proof -
  assume k: "k \<le> length (takeWhile P s)"
  have "take k s = take k (takeWhile P s)"
    by (metis k takeWhile_dropWhile_id take_append diff_is_0_eq' take_0 append_Nil2)
  moreover have "list_all P (takeWhile P s)"
    by (simp add: list_all_iff) (meson set_takeWhileD)
  ultimately show ?thesis
    by (metis in_set_takeD list_all_iff)
qed

lemma paths_suffix:
  "(g', rest) \<in> set (paths U ic r (g, s)) \<Longrightarrow> \<exists>w. s = w @ rest"
proof (induction r arbitrary: g s g' rest)
  case Eps
  then show ?case by simp
next
  case (One c)
  then show ?case by (auto simp: paths_One_iff)
next
  case (Star c)
  then show ?case unfolding paths_Star_iff by (metis append_take_drop_id)
next
  case (Plus c)
  then show ?case unfolding paths_Plus_iff by (metis append_take_drop_id)
next
  case (Opt r)
  then show ?case by (auto simp: paths_Opt_iff)
next
  case (Seq r1 r2)
  from Seq.prems obtain g1 s1 where a: "(g1, s1) \<in> set (paths U ic r1 (g, s))"
    and b: "(g', rest) \<in> set (paths U ic r2 (g1, s1))"
    by (auto simp: paths_Seq_iff)
  from Seq.IH(1)[OF a] Seq.IH(2)[OF b] show ?case by auto
next
  case (Alt r1 r2)
  then show ?case by auto
next
  case (Grp i r)
  then show ?case by (auto simp: paths_Grp_iff)
qed

lemma paths_consumed:
  "(g', rest) \<in> set (paths U ic r (g, s)) \<Longrightarrow> s = consumed s rest @ rest"
  using paths_suffix by fastforce

lemma paths_Eps_iff: "st' \<in> set (paths U ic Eps st) \<longleftrightarrow> st' = st"
  by simp

lemma paths_Alt_iff:
  "st' \<in> set (paths U ic (Alt r1 r2) st) \<longleftrightarrow>
     st' \<in> set (paths U ic r1 st) \<or> st' \<in> set (paths U ic r2 st)"
  by simp

lemmas paths_iff = paths_Eps_iff paths_One_iff paths_Star_iff paths_Plus_iff paths_Seq_iff
  paths_Opt_iff paths_Alt_iff paths_Grp_iff

declare paths.simps [simp del]

lemma cls_Digit: "cls_ok U ic Digit = is_dec U"
  by (rule ext) simp

lemma run_split:
  assumes "k \<le> length (takeWhile P s)"
  shows "s = take k s @ drop k s \<and> list_all P (take k s) \<and> length (take k s) = k"
proof -
  have "length (takeWhile P s) \<le> length s" by (rule length_takeWhile_le)
  with assms show ?thesis by (simp add: take_run)
qed

lemma unsigned_float_digits:
  assumes "d1 \<noteq> []" "list_all (is_dec U) d1"
  shows "\<exists>v. unsigned_float U d1 = Inr v"
proof -
  have tw: "takeWhile (is_dec U) d1 = d1" "dropWhile (is_dec U) d1 = []"
    using assms(2) by (simp_all add: list_all_iff)
  show ?thesis using assms(1) by (simp add: unsigned_float_def tw)
qed

lemma unsigned_float_point:
  assumes "\<not> is_dec U 0x2E" "d1 \<noteq> []" "list_all (is_dec U) d1" "list_all (is_dec U) d2"
  shows "\<exists>v. unsigned_float U (d1 @ 0x2E # d2) = Inr v"
proof -
  have tw: "takeWhile (is_dec U) (d1 @ 0x2E # d2) = d1"
    using assms(1,3) by (simp add: list_all_iff)
  have dw: "dropWhile (is_dec U) (d1 @ 0x2E # d2) = 0x2E # d2"
    using assms(1,3) by (simp add: list_all_iff)
  show ?thesis using assms(2,4) by (simp add: unsigned_float_def tw dw)
qed

lemma UNUM_shape:
  assumes ok: "tables_ok U" and p: "(g', rest) \<in> set (paths U ic UNUM (g, s))"
  shows "g' = g \<and> (\<exists>d1 d2. d1 \<noteq> [] \<and> list_all (is_dec U) d1 \<and> list_all (is_dec U) d2 \<and>
           (s = d1 @ d2 @ rest \<or> s = d1 @ 0x2E # d2 @ rest))"
proof -
  from p obtain st1 st2 where
    a: "st1 \<in> set (paths U ic (Plus Digit) (g, s))" and
    b: "st2 \<in> set (paths U ic (Opt (One (Lit 0x2E))) st1)" and
    c: "(g', rest) \<in> set (paths U ic (Star Digit) st2)"
    unfolding UNUM_def seqs.simps paths_Seq_iff by blast
  note iffs = paths_iff cls_Digit
  obtain g1 s1 where st1: "st1 = (g1, s1)" by (cases st1)
  obtain g2 s2 where st2: "st2 = (g2, s2)" by (cases st2)
  from a st1 obtain k where k: "1 \<le> k" "k \<le> length (takeWhile (is_dec U) s)" "s1 = drop k s" "g1 = g"
    by (auto simp: iffs)
  define d1 where "d1 = take k s"
  have d1: "s = d1 @ s1" "list_all (is_dec U) d1" "d1 \<noteq> []"
    using run_split[OF k(2)] k(1,3) by (auto simp: d1_def)
  from c st2 obtain j where j: "j \<le> length (takeWhile (is_dec U) s2)" "rest = drop j s2" "g' = g2"
    by (auto simp: iffs)
  define d2 where "d2 = take j s2"
  have d2: "s2 = d2 @ rest" "list_all (is_dec U) d2"
    using run_split[OF j(1)] j(2) by (auto simp: d2_def)
  from b st1 st2 have "(g2 = g1 \<and> s2 = s1) \<or> (g2 = g1 \<and> (\<exists>x. s1 = x # s2 \<and> lit_ok U ic 0x2E x))"
    by (auto simp: iffs)
  moreover have "lit_ok U ic 0x2E x \<Longrightarrow> x = 0x2E" for x
    using ok by (auto simp: lit_ok_def tables_ok_def)
  ultimately have "g2 = g1 \<and> (s1 = s2 \<or> s1 = 0x2E # s2)" by auto
  with d1 d2 k(4) j(3) show ?thesis by auto
qed

lemma UNUM_float:
  assumes ok: "tables_ok U" and p: "(g', rest) \<in> set (paths U ic UNUM (g, s))"
  shows "float_ok U (consumed s rest)"
proof -
  from UNUM_shape[OF ok p] obtain d1 d2 where
    d: "d1 \<noteq> []" "list_all (is_dec U) d1" "list_all (is_dec U) d2"
       "s = d1 @ d2 @ rest \<or> s = d1 @ 0x2E # d2 @ rest" by blast
  obtain x xs where x: "d1 = x # xs" using d(1) by (cases d1) auto
  have nd: "\<not> is_dec U 0x2D" "\<not> is_dec U 0x2B" "\<not> is_dec U 0x2E"
    using ok by (auto simp: tables_ok_def is_dec_def)
  have xd: "is_dec U x" using d(2) x by simp
  with nd have xn: "x \<noteq> 0x2D" "x \<noteq> 0x2B" by auto
  from d(4) show ?thesis
  proof
    assume s: "s = d1 @ d2 @ rest"
    then have "consumed s rest = d1 @ d2" by (metis append.assoc consumed_append)
    moreover have "\<exists>v. unsigned_float U (d1 @ d2) = Inr v"
      using unsigned_float_digits[of "d1 @ d2" U] d by simp
    ultimately show ?thesis using x xn
      by (auto simp: float_ok_def py_float_def bindE_def)
  next
    assume s: "s = d1 @ 0x2E # d2 @ rest"
    then have "consumed s rest = d1 @ 0x2E # d2"
      by (metis append.assoc append_Cons consumed_append)
    moreover have "\<exists>v. unsigned_float U (d1 @ 0x2E # d2) = Inr v"
      using unsigned_float_point[OF nd(3) d(1,2,3)] .
    ultimately show ?thesis using x xn
      by (auto simp: float_ok_def py_float_def bindE_def)
  qed
qed

lemma SNUM_UNUM: "SNUM = Seq (Opt (One (Lit 0x2D))) UNUM"
  by (simp add: SNUM_def UNUM_def)

lemma SNUM_float:
  assumes ok: "tables_ok U" and p: "(g', rest) \<in> set (paths U False SNUM (g, s))"
  shows "float_ok U (consumed s rest)"
proof -
  from p obtain st1 where
    a: "st1 \<in> set (paths U False (Opt (One (Lit 0x2D))) (g, s))" and
    b: "(g', rest) \<in> set (paths U False UNUM st1)"
    unfolding SNUM_UNUM paths_Seq_iff by blast
  obtain g1 s1 where st1: "st1 = (g1, s1)" by (cases st1)
  from a st1 have s1: "s1 = s \<or> s = 0x2D # s1"
    by (auto simp: paths_iff lit_ok_def)
  have u: "float_ok U (consumed s1 rest)"
    using UNUM_float[OF ok] b st1 by blast
  have c1: "s1 = consumed s1 rest @ rest"
    using paths_consumed b st1 by blast
  from s1 show ?thesis
  proof
    assume "s1 = s" with u show ?thesis by simp
  next
    assume s: "s = 0x2D # s1"
    then have "s = (0x2D # consumed s1 rest) @ rest" using c1 by simp
    then have "consumed s rest = 0x2D # consumed s1 rest"
      by (metis consumed_append)
    moreover from UNUM_shape[OF ok] b st1 c1 obtain d1 d2 where
      d: "d1 \<noteq> []" "list_all (is_dec U) d1" "consumed s1 rest = d1 @ d2 \<or> consumed s1 rest = d1 @ 0x2E # d2"
      by (metis append.assoc append_Cons consumed_append)
    obtain x xs where x: "d1 = x # xs" using d(1) by (cases d1) auto
    have "is_dec U x" using d(2) x by simp
    then have xn: "x \<noteq> 0x2D" "x \<noteq> 0x2B"
      using ok by (auto simp: tables_ok_def is_dec_def)
    have "strip_sign (consumed s1 rest) = (False, consumed s1 rest)"
      using d(3) x xn by auto
    then have "\<exists>v. unsigned_float U (consumed s1 rest) = Inr v"
      using u by (auto simp: float_ok_def py_float_def bindE_def split: sum.splits)
    ultimately show ?thesis
      by (auto simp: float_ok_def py_float_def bindE_def)
  qed
qed

lemma paths_grp_inv:
  "grp_inv U ic Q r \<Longrightarrow> caps_ok Q g \<Longrightarrow>
   (g', rest) \<in> set (paths U ic r (g, s)) \<Longrightarrow> caps_ok Q g'"
proof (induction r arbitrary: g s g' rest)
  case Eps
  then show ?case by (simp add: paths_Eps_iff)
next
  case (One c)
  then show ?case by (simp add: paths_One_iff)
next
  case (Star c)
  then show ?case by (simp add: paths_Star_iff)
next
  case (Plus c)
  then show ?case by (simp add: paths_Plus_iff)
next
  case (Opt r)
  from Opt.prems(3) have "(g', rest) \<in> set (paths U ic r (g, s)) \<or> (g', rest) = (g, s)"
    by (simp add: paths_Opt_iff)
  then show ?case
  proof
    assume a: "(g', rest) \<in> set (paths U ic r (g, s))"
    have "grp_inv U ic Q r" using Opt.prems(1) by simp
    from Opt.IH[OF this Opt.prems(2) a] show ?thesis .
  next
    assume "(g', rest) = (g, s)"
    with Opt.prems(2) show ?thesis by simp
  qed
next
  case (Seq r1 r2)
  from Seq.prems(3) obtain st1 where a0: "st1 \<in> set (paths U ic r1 (g, s))"
    and b0: "(g', rest) \<in> set (paths U ic r2 st1)"
    unfolding paths_Seq_iff by blast
  obtain g1 s1 where st1: "st1 = (g1, s1)" by (cases st1)
  have i1: "grp_inv U ic Q r1" and i2: "grp_inv U ic Q r2" using Seq.prems(1) by simp_all
  have "caps_ok Q g1" using Seq.IH(1)[OF i1 Seq.prems(2)] a0 st1 by blast
  then show ?case using Seq.IH(2)[OF i2] b0 st1 by blast
next
  case (Alt r1 r2)
  have i1: "grp_inv U ic Q r1" and i2: "grp_inv U ic Q r2" using Alt.prems(1) by simp_all
  from Alt.prems(3) have "(g', rest) \<in> set (paths U ic r1 (g, s)) \<or> (g', rest) \<in> set (paths U ic r2 (g, s))"
    by (simp add: paths_Alt_iff)
  then show ?case
    using Alt.IH(1)[OF i1 Alt.prems(2)] Alt.IH(2)[OF i2 Alt.prems(2)] by blast
next
  case (Grp i r)
  from Grp.prems(3) obtain g1 where a: "(g1, rest) \<in> set (paths U ic r (g, s))"
    and g': "g' = g1(i \<mapsto> take (length s - length rest) s)"
    unfolding paths_Grp_iff by blast
  have i1: "grp_inv U ic Q r" and q: "Q (take (length s - length rest) s)"
    using Grp.prems(1) a by auto
  have "caps_ok Q g1" using Grp.IH[OF i1 Grp.prems(2) a] .
  with q g' show ?case by (simp add: caps_ok_def)
qed

lemma paths_mono:
  "(g', rest) \<in> set (paths U ic r (g, s)) \<Longrightarrow> g i \<noteq> None \<Longrightarrow> g' i \<noteq> None"
proof (induction r arbitrary: g s g' rest)
  case Eps
  then show ?case by (simp add: paths_Eps_iff)
next
  case (One c)
  then show ?case by (simp add: paths_One_iff)
next
  case (Star c)
  then show ?case by (simp add: paths_Star_iff)
next
  case (Plus c)
  then show ?case by (simp add: paths_Plus_iff)
next
  case (Opt r)
  from Opt.prems(1) have "(g', rest) \<in> set (paths U ic r (g, s)) \<or> (g', rest) = (g, s)"
    by (simp add: paths_Opt_iff)
  then show ?case using Opt.IH Opt.prems(2) by blast
next
  case (Seq r1 r2)
  from Seq.prems(1) obtain st1 where a0: "st1 \<in> set (paths U ic r1 (g, s))"
    and b0: "(g', rest) \<in> set (paths U ic r2 st1)"
    unfolding paths_Seq_iff by blast
  obtain g1 s1 where st1: "st1 = (g1, s1)" by (cases st1)
  have "g1 i \<noteq> None" using Seq.IH(1) a0 st1 Seq.prems(2) by blast
  then show ?case using Seq.IH(2) b0 st1 by blast
next
  case (Alt r1 r2)
  from Alt.prems(1) have "(g', rest) \<in> set (paths U ic r1 (g, s)) \<or> (g', rest) \<in> set (paths U ic r2 (g, s))"
    by (simp add: paths_Alt_iff)
  then show ?case using Alt.IH Alt.prems(2) by blast
next
  case (Grp j r)
  from Grp.prems(1) obtain g1 where a: "(g1, rest) \<in> set (paths U ic r (g, s))"
    and g': "g' = g1(j \<mapsto> take (length s - length rest) s)"
    unfolding paths_Grp_iff by blast
  have "g1 i \<noteq> None" using Grp.IH[OF a Grp.prems(2)] .
  with g' show ?case by simp
qed

lemma paths_sets:
  "sets_group i r \<Longrightarrow> (g', rest) \<in> set (paths U ic r (g, s)) \<Longrightarrow> g' i \<noteq> None"
proof (induction r arbitrary: g s g' rest)
  case (Seq r1 r2)
  from Seq.prems(2) obtain st1 where a0: "st1 \<in> set (paths U ic r1 (g, s))"
    and b0: "(g', rest) \<in> set (paths U ic r2 st1)"
    unfolding paths_Seq_iff by blast
  obtain g1 s1 where st1: "st1 = (g1, s1)" by (cases st1)
  from Seq.prems(1) have "sets_group i r1 \<or> sets_group i r2" by simp
  then show ?case
  proof
    assume "sets_group i r1"
    then have "g1 i \<noteq> None" using Seq.IH(1) a0 st1 by blast
    then show ?thesis using paths_mono b0 st1 by blast
  next
    assume "sets_group i r2"
    then show ?thesis using Seq.IH(2) b0 st1 by blast
  qed
next
  case (Alt r1 r2)
  from Alt.prems(2) have "(g', rest) \<in> set (paths U ic r1 (g, s)) \<or> (g', rest) \<in> set (paths U ic r2 (g, s))"
    by (simp add: paths_Alt_iff)
  moreover from Alt.prems(1) have "sets_group i r1" "sets_group i r2" by simp_all
  ultimately show ?case using Alt.IH by blast
next
  case (Grp j r)
  from Grp.prems(2) obtain g1 where a: "(g1, rest) \<in> set (paths U ic r (g, s))"
    and g': "g' = g1(j \<mapsto> take (length s - length rest) s)"
    unfolding paths_Grp_iff by blast
  show ?case
  proof (cases "j = i")
    case True
    with g' show ?thesis by simp
  next
    case False
    with Grp.prems(1) have "sets_group i r" by simp
    then have "g1 i \<noteq> None" using Grp.IH a by blast
    with g' show ?thesis by simp
  qed
qed simp_all

section \<open>Searches and captured numbers\<close>

lemma match_at_paths:
  assumes "match_at U ic r s = Some m"
  shows "\<exists>rest. (m_groups m, rest) \<in> set (paths U ic r (Map.empty, s)) \<and>
           m_text m = consumed s rest \<and> m_rest m = rest"
proof (cases "paths U ic r (Map.empty, s)")
  case Nil
  with assms show ?thesis by (simp add: match_at_def)
next
  case (Cons st sts)
  obtain g rest where st: "st = (g, rest)" by (cases st)
  have "(g, rest) \<in> set (paths U ic r (Map.empty, s))" using Cons st by simp
  moreover have "m = \<lparr>m_text = take (length s - length rest) s, m_groups = g, m_rest = rest\<rparr>"
    using assms Cons st by (simp add: match_at_def)
  ultimately show ?thesis by (auto simp: consumed_def)
qed

lemma re_search_match_at:
  "re_search U ic r t = Some m \<Longrightarrow> \<exists>s. suffix s t \<and> match_at U ic r s = Some m"
proof (induction t)
  case Nil
  then show ?case by auto
next
  case (Cons c cs)
  show ?case
  proof (cases "match_at U ic r (c # cs)")
    case None
    with Cons obtain s where "suffix s cs" "match_at U ic r s = Some m" by auto
    then show ?thesis by (meson suffix_ConsI)
  next
    case (Some m')
    with Cons.prems have "match_at U ic r (c # cs) = Some m" by simp
    then show ?thesis by blast
  qed
qed

lemma re_search_None:
  "re_search U ic r t = None \<longleftrightarrow> (\<forall>s. suffix s t \<longrightarrow> match_at U ic r s = None)"
proof (induction t)
  case Nil
  then show ?case by simp
next
  case (Cons c cs)
  show ?case
  proof (cases "match_at U ic r (c # cs)")
    case None
    with Cons show ?thesis by (auto simp: suffix_Cons)
  next
    case (Some m')
    then show ?thesis by (auto intro: exI[of _ "c # cs"])
  qed
qed

lemma match_rest_suffix:
  assumes "match_at U ic r s = Some m"
  shows "suffix (m_rest m) s"
proof -
  from match_at_paths[OF assms] obtain rest where
    "(m_groups m, rest) \<in> set (paths U ic r (Map.empty, s))" "m_rest m = rest" by blast
  with paths_suffix show ?thesis by (metis suffixI)
qed

lemma finditer_match_at:
  "m \<in> set (finditer U ic r t) \<Longrightarrow> \<exists>s. suffix s t \<and> match_at U ic r s = Some m"
proof (induction U ic r t rule: finditer.induct)
  case (1 U ic r)
  then show ?case by (auto split: option.splits)
next
  case (2 U ic r c cs)
  show ?case
  proof (cases "re_search U ic r (c # cs)")
    case None
    with 2 show ?thesis by simp
  next
    case (Some m')
    with 2(2) have "m = m' \<or> m \<in> set (finditer U ic r (next_input (c # cs) (m_rest m')))" by simp
    then show ?thesis
    proof
      assume "m = m'"
      with Some re_search_match_at show ?thesis by blast
    next
      assume a: "m \<in> set (finditer U ic r (next_input (c # cs) (m_rest m')))"
      from re_search_match_at[OF Some] obtain s0 where s0: "suffix s0 (c # cs)" "match_at U ic r s0 = Some m'"
        by blast
      from match_rest_suffix[OF s0(2)] s0(1) have "suffix (m_rest m') (c # cs)"
        by (meson suffix_order.trans)
      then have n: "suffix (next_input (c # cs) (m_rest m')) (c # cs)"
        by (simp add: next_input_def suffix_ConsI)
      from 2(1)[OF Some a] obtain s where "suffix s (next_input (c # cs) (m_rest m'))"
        "match_at U ic r s = Some m" by blast
      with n show ?thesis by (meson suffix_order.trans)
    qed
  qed
qed

lemma match_float:
  assumes "grp_inv U ic (float_ok U) r" "sets_group i r" "match_at U ic r s = Some m"
  shows "float_group U m i = Inr (group_value U m i)"
proof -
  from match_at_paths[OF assms(3)] obtain rest where
    p: "(m_groups m, rest) \<in> set (paths U ic r (Map.empty, s))" by blast
  from paths_sets[OF assms(2) p] obtain w where w: "m_groups m i = Some w" by auto
  have "caps_ok (float_ok U) (\<lambda>x. None)" by (simp add: caps_ok_def)
  from paths_grp_inv[OF assms(1) this p] w have "float_ok U w" by (simp add: caps_ok_def)
  with w show ?thesis
    by (auto simp: float_group_def group_value_def float_ok_def split: sum.splits)
qed

lemma search_float:
  assumes "grp_inv U ic (float_ok U) r" "sets_group i r" "re_search U ic r t = Some m"
  shows "float_group U m i = Inr (group_value U m i)"
  using re_search_match_at[OF assms(3)] match_float[OF assms(1,2)] by blast

lemma finditer_float:
  assumes "grp_inv U ic (float_ok U) r" "sets_group i r" "m \<in> set (finditer U ic r t)"
  shows "float_group U m i = Inr (group_value U m i)"
  using finditer_match_at[OF assms(3)] match_float[OF assms(1,2)] by blast

lemma collect_map:
  "(\<And>m. m \<in> set ms \<Longrightarrow> f m = Inr (h m)) \<Longrightarrow> collect f ms = Inr (map h ms)"
  by (induction ms) (simp_all add: bindE_def)

lemma grp_inv_word: "grp_inv U ic Q (word_rx kw)"
  by (induction kw) simp_all

lemma sets_group_word: "\<not> sets_group i (word_rx kw)"
  by (induction kw) simp_all

lemma UNUM_Q:
  "tables_ok U \<Longrightarrow> (g', rest) \<in> set (paths U ic UNUM (g, s)) \<Longrightarrow>
     float_ok U (take (length s - length rest) s)"
  using UNUM_float[of U g' rest ic g s] by (simp add: consumed_def)

lemma SNUM_Q:
  "tables_ok U \<Longrightarrow> (g', rest) \<in> set (paths U False SNUM (g, s)) \<Longrightarrow>
     float_ok U (take (length s - length rest) s)"
  using SNUM_float[of U g' rest g s] by (simp add: consumed_def)

lemma grp_inv_num [simp]: "grp_inv U ic Q UNUM" "grp_inv U ic Q SNUM"
  by (simp_all add: UNUM_def SNUM_def)

lemma keyword_rx_ok:
  assumes "tables_ok U"
  shows "grp_inv U ic (float_ok U) (keyword_rx kw)" "sets_group 1 (keyword_rx kw)"
  using assms UNUM_Q[of U]
  by (auto simp: keyword_rx_def grp_inv_word)

lemma keyword_opt_rx_ok:
  assumes "tables_ok U"
  shows "grp_inv U ic (float_ok U) (keyword_opt_rx kw opt)" "sets_group 1 (keyword_opt_rx kw opt)"
  using assms UNUM_Q[of U]
  by (auto simp: keyword_opt_rx_def grp_inv_word)

lemma COORD_ok:
  assumes "tables_ok U"
  shows "grp_inv U False (float_ok U) COORD_PATTERN" "sets_group 1 COORD_PATTERN"
    "sets_group 2 COORD_PATTERN"
  using assms SNUM_Q[of U]
  by (auto simp: COORD_PATTERN_def)

lemma NUMBER_ok:
  assumes "tables_ok U"
  shows "grp_inv U False (float_ok U) NUMBER_PATTERN" "sets_group 1 NUMBER_PATTERN"
  using assms SNUM_Q[of U]
  by (auto simp: NUMBER_PATTERN_def)

section \<open>The extractors and parsers return\<close>

lemma bindE_Inr [simp]: "bindE (Inr x) f = f x"
  by (simp add: bindE_def)

lemma bindE_Inl [simp]: "bindE (Inl e) f = Inl e"
  by (simp add: bindE_def)

lemma bindE_eq_Inr: "bindE m f = Inr y \<longleftrightarrow> (\<exists>x. m = Inr x \<and> f x = Inr y)"
  by (cases m) simp_all

lemma extract_coordinates_total:
  assumes "tables_ok U"
  shows "extract_coordinates U t = Inr (coords_of U t)"
  unfolding extract_coordinates_def coords_of_def
proof (rule collect_map)
  fix m assume m: "m \<in> set (finditer U False COORD_PATTERN t)"
  from finditer_float[OF COORD_ok(1,2)[OF assms] m] finditer_float[OF COORD_ok(1,3)[OF assms] m]
  show "coord_of U m = Inr (group_value U m 1, group_value U m 2)"
    by (simp add: coord_of_def)
qed

lemma extract_numbers_total:
  assumes "tables_ok U"
  shows "extract_numbers U t = Inr (numbers_of U t)"
  unfolding extract_numbers_def numbers_of_def
  by (rule collect_map) (rule finditer_float[OF NUMBER_ok[OF assms]])

lemma set_float_total:
  assumes "grp_inv U ic (float_ok U) r" "sets_group 1 r"
  shows "set_float U k (re_search U ic r t) ps =
           Inr (case keyword_value U ic r t of None \<Rightarrow> ps | Some v \<Rightarrow> AList.update k (Num v) ps)"
proof (cases "re_search U ic r t")
  case None
  then show ?thesis by (simp add: set_float_def keyword_value_def)
next
  case (Some m)
  with search_float[OF assms Some] show ?thesis by (simp add: set_float_def keyword_value_def)
qed

lemma float_or_total:
  assumes "grp_inv U ic (float_ok U) r" "sets_group 1 r"
  shows "float_or U (re_search U ic r t) x =
           Inr (case keyword_value U ic r t of None \<Rightarrow> x | Some v \<Rightarrow> v)"
proof (cases "re_search U ic r t")
  case None
  then show ?thesis by (simp add: float_or_def keyword_value_def)
next
  case (Some m)
  with search_float[OF assms Some] show ?thesis by (simp add: float_or_def keyword_value_def)
qed

lemmas set_float_kw = set_float_total[OF keyword_rx_ok] set_float_total[OF keyword_opt_rx_ok]
lemmas float_or_kw = float_or_total[OF keyword_rx_ok]

lemma first_or_origin_total:
  "first_or_origin coords = Inr (case coords of [] \<Rightarrow> (0, 0) | c # cs \<Rightarrow> c)"
  by (cases coords) (simp_all add: first_or_origin_def py_index_def)

lemma py_index_ok: "i < length xs \<Longrightarrow> py_index xs i = Inr (xs ! i)"
  by (simp add: py_index_def)

lemma search_group_set:
  assumes "sets_group i r" "re_search U ic r t = Some m"
  shows "m_groups m i \<noteq> None"
proof -
  from re_search_match_at[OF assms(2)] obtain s where "match_at U ic r s = Some m" by blast
  from match_at_paths[OF this] paths_sets[OF assms(1)] show ?thesis by blast
qed

lemma HATCH_sets: "sets_group 1 HATCH_PATTERN_RX"
  by (simp add: HATCH_PATTERN_RX_def)

lemmas total_simps = extract_coordinates_total extract_numbers_total set_float_kw float_or_kw
  first_or_origin_total py_index_def

lemma parse_generic_total: "tables_ok U \<Longrightarrow> \<exists>ps. parse_generic U t = Inr ps"
  by (simp add: parse_generic_def total_simps)

lemma parse_line_total: "tables_ok U \<Longrightarrow> \<exists>ps. parse_line U t = Inr ps"
  by (auto simp: parse_line_def total_simps)

lemma parse_arc_total: "tables_ok U \<Longrightarrow> \<exists>ps. parse_arc U t = Inr ps"
  by (simp add: parse_arc_def total_simps)

lemma parse_ellipse_total: "tables_ok U \<Longrightarrow> \<exists>ps. parse_ellipse U t = Inr ps"
  by (simp add: parse_ellipse_def total_simps)

lemma parse_rectangle_total: "tables_ok U \<Longrightarrow> \<exists>ps. parse_rectangle U t = Inr ps"
  by (auto simp: parse_rectangle_def total_simps)

lemma parse_polyline_total: "tables_ok U \<Longrightarrow> \<exists>ps. parse_polyline U t = Inr ps"
  by (simp add: parse_polyline_def total_simps Let_def)

lemma parse_text_total: "tables_ok U \<Longrightarrow> \<exists>ps. parse_text U t = Inr ps"
  by (simp add: parse_text_def total_simps Let_def)

lemma parse_dimension_total: "tables_ok U \<Longrightarrow> \<exists>ps. parse_dimension U t = Inr ps"
  by (auto simp: parse_dimension_def total_simps Let_def)

lemma parse_save_total: "\<exists>ps. parse_save U t = Inr ps"
  by (simp add: parse_save_def Let_def)

lemma keyword_value_search:
  assumes "grp_inv U ic (float_ok U) r" "sets_group 1 r"
  shows "re_search U ic r t = Some m \<Longrightarrow>
           float_group U m 1 = Inr (group_value U m 1) \<and> keyword_value U ic r t = Some (group_value U m 1)"
    and "re_search U ic r t = None \<Longrightarrow> keyword_value U ic r t = None"
  using search_float[OF assms] by (simp_all add: keyword_value_def)

lemma parse_circle_closed:
  assumes ok: "tables_ok U"
  shows "parse_circle U t =
           Inr [(''center'', Point (spec_center U t)), (''radius'', Num (spec_circle_radius U t))]"
proof -
  note kv = keyword_value_search[OF keyword_rx_ok[OF ok]]
  let ?en = "re_search U True (keyword_rx (cps ''radius'')) t"
  let ?cn = "re_search U False (keyword_rx [0x534A, 0x5F84]) t"
  show ?thesis
  proof (cases ?en)
    case (Some m)
    with kv(1)[OF Some] show ?thesis
      by (simp add: parse_circle_def total_simps ok spec_center_def
          spec_circle_radius_def Let_def)
  next
    case None
    note en = None kv(2)[OF None]
    show ?thesis
    proof (cases ?cn)
      case (Some m)
      with kv(1)[OF Some] en show ?thesis
        by (simp add: parse_circle_def total_simps ok spec_center_def
            spec_circle_radius_def Let_def)
    next
      case None
      have len: "coords_of U t \<noteq> [] \<Longrightarrow> 2 \<le> length (coords_of U t) * 2"
        by (cases "coords_of U t") auto
      from kv(2)[OF None] en None len show ?thesis
        by (auto simp: parse_circle_def total_simps ok spec_center_def
            spec_circle_radius_def Let_def py_index_def hd_conv_nth hd_drop_conv_nth mult.commute)
    qed
  qed
qed

lemma parse_hatch_total: "tables_ok U \<Longrightarrow> \<exists>ps. parse_hatch U t = Inr ps"
proof (cases "re_search U True HATCH_PATTERN_RX t")
  case None
  assume "tables_ok U"
  with None show ?thesis by (simp add: parse_hatch_def total_simps Let_def)
next
  case (Some m)
  assume ok: "tables_ok U"
  from search_group_set[OF HATCH_sets Some] obtain w where "m_groups m 1 = Some w" by auto
  with Some ok show ?thesis by (simp add: parse_hatch_def total_simps Let_def)
qed

lemma parser_total:
  assumes ok: "tables_ok U"
  shows "\<exists>ps. (case parser_method sh of Some parser \<Rightarrow> parser U t | None \<Rightarrow> parse_generic U t) = Inr ps"
  using ok parse_generic_total[OF ok] parse_line_total[OF ok] parse_circle_closed[OF ok]
    parse_arc_total[OF ok] parse_ellipse_total[OF ok] parse_rectangle_total[OF ok]
    parse_polyline_total[OF ok] parse_text_total[OF ok] parse_dimension_total[OF ok]
    parse_hatch_total[OF ok] parse_save_total
  by (simp add: parser_method_def)

lemma parse_command_total:
  assumes ok: "tables_ok U"
  shows "\<exists>r. parse_command U t = Inr r"
proof (cases "falsy (identify_shape U t)")
  case True
  then show ?thesis by (simp add: parse_command_def Let_def)
next
  case False
  from parser_total[OF ok, where sh = "the (identify_shape U t)" and t = t] obtain ps where
    "(case parser_method (the (identify_shape U t)) of Some parser \<Rightarrow> parser U t
      | None \<Rightarrow> parse_generic U t) = Inr ps" by blast
  with False show ?thesis by (simp add: parse_command_def Let_def)
qed

section \<open>The color pattern\<close>

lemma lit_prefix_length: "lit_prefix U ic n s \<Longrightarrow> length n \<le> length s"
  by (induction U ic n s rule: lit_prefix.induct) simp_all

lemma paths_word:
  "paths U ic (word_rx n) (g, s) =
     (if lit_prefix U ic n s then [(g, drop (length n) s)] else [])"
proof (induction n arbitrary: s)
  case Nil
  then show ?case by (simp add: paths.simps)
next
  case (Cons p ps)
  show ?case
  proof (cases s)
    case Nil
    then show ?thesis by (simp add: paths.simps)
  next
    case (Cons c cs)
    with Cons.IH[of cs] show ?thesis by (simp add: paths.simps)
  qed
qed

lemma paths_alts:
  "rs \<noteq> [] \<Longrightarrow> paths U ic (alts rs) st = concat (map (\<lambda>r. paths U ic r st) rs)"
  by (induction rs rule: alts.induct) (simp_all add: paths.simps)

lemma concat_words:
  "concat (map (\<lambda>r. paths U ic r (g, s)) (map word_rx ns)) =
     map (\<lambda>n. (g, drop (length n) s)) (filter (\<lambda>n. lit_prefix U ic n s) ns)"
  by (induction ns) (simp_all add: paths_word)

lemma match_at_words:
  assumes "ns \<noteq> []"
  shows "match_at U ic (alts (map word_rx ns)) s =
     map_option (\<lambda>n. \<lparr>m_text = take (length n) s, m_groups = Map.empty, m_rest = drop (length n) s\<rparr>)
       (find (\<lambda>n. lit_prefix U ic n s) ns)"
proof -
  have p: "paths U ic (alts (map word_rx ns)) (Map.empty, s) =
             map (\<lambda>n. (Map.empty, drop (length n) s)) (filter (\<lambda>n. lit_prefix U ic n s) ns)"
    using assms concat_words[of U ic Map.empty s ns] by (simp add: paths_alts del: map_map)
  show ?thesis
  proof (cases "find (\<lambda>n. lit_prefix U ic n s) ns")
    case None
    then have "filter (\<lambda>n. lit_prefix U ic n s) ns = []"
      by (simp add: find_None_iff filter_empty_conv)
    with None show ?thesis by (simp add: match_at_def p)
  next
    case (Some n)
    then obtain rest where f: "filter (\<lambda>n. lit_prefix U ic n s) ns = n # rest"
      by (induction ns) (auto split: if_splits)
    from Some have "lit_prefix U ic n s" by (auto simp: find_Some_iff)
    then have "length n \<le> length s" by (rule lit_prefix_length)
    then have "take (length s - length (drop (length n) s)) s = take (length n) s" by simp
    with Some f show ?thesis by (simp add: match_at_def p)
  qed
qed

lemma sorted_colors_eq:
  "sorted_colors =
     [cps ''arancione'', cps ''magenta'', cps ''azzurro'', cps ''azzurra'',
      cps ''marrone'', cps ''yellow'', cps ''orange'', cps ''purple'',
      cps ''giallo'', cps ''gialla'', cps ''bianco'', cps ''bianca'',
      cps ''grigio'', cps ''grigia'', cps ''green'', cps ''white'',
      cps ''black'', cps ''brown'', cps ''rosso'', cps ''rossa'',
      cps ''verde'', cps ''ciano'', cps ''viola'', cps ''cyan'',
      cps ''blue'', cps ''gray'', cps ''grey'', cps ''pink'',
      cps ''nero'', cps ''nera'', cps ''rosa'', cps ''red'',
      cps ''blu'', [0x6D0B, 0x7EA2, 0x8272], [0x7EA2, 0x8272], [0x9EC4, 0x8272],
      [0x7EFF, 0x8272], [0x9752, 0x8272], [0x84DD, 0x8272], [0x6D0B, 0x7EA2],
      [0x7D2B, 0x7EA2], [0x767D, 0x8272], [0x7070, 0x8272], [0x9ED1, 0x8272],
      [0x6A59, 0x8272], [0x68D5, 0x8272], [0x7D2B, 0x8272], [0x7C89, 0x8272],
      [0x7C89, 0x7EA2], [0x7EA2], [0x9EC4], [0x7EFF],
      [0x9752], [0x84DD], [0x767D], [0x7070],
      [0x9ED1], [0x6A59], [0x68D5], [0x7D2B],
      [0x7C89]]"
  by (simp add: sorted_colors_def COLOR_MAP_def cps_def)

lemma color_match_at:
  "match_at U True color_pattern s =
     map_option (\<lambda>n. \<lparr>m_text = take (length n) s, m_groups = Map.empty, m_rest = drop (length n) s\<rparr>)
       (find (\<lambda>n. lit_prefix U True n s) sorted_colors)"
  unfolding color_pattern_def
  by (rule match_at_words) (simp add: sorted_colors_eq)

section \<open>The claims\<close>

subsection \<open>C2: no shape keyword\<close>

lemma save_it_no_shape:
  "\<forall>(kw, tag) \<in> set SHAPE_KEYWORDS.
     \<not> sublist (u_lower basic_tables kw) (u_lower basic_tables (cps ''save it''))"
  unfolding py_in_sublist[symmetric]
  by (simp add: SHAPE_KEYWORDS_def eval_defs)

text \<open>
  C2. When no surface form of the shape table occurs in the text (the lower-cased keyword
  is not a contiguous part of the lower-cased text), \<open>parse_command\<close> returns without
  error a command with no shape, an empty parameter map, the input as \<open>raw_text\<close>,
  confidence 0.3, and as action the tag of the first entry of the action table whose
  keyword occurs, or \<open>draw\<close> when none does.
\<close>

theorem no_shape_degraded:
  assumes "\<forall>(kw, tag) \<in> set SHAPE_KEYWORDS. \<not> sublist (u_lower U kw) (u_lower U t)"
  shows "parse_command U t =
           Inr \<lparr>action = (case find (\<lambda>(kw, tag). sublist (u_lower U kw) (u_lower U t)) ACTION_KEYWORDS of
                             Some (kw, tag) \<Rightarrow> tag
                           | None \<Rightarrow> ''draw''),
                shape = None, parameters = [], raw_text = t, confidence = 0.3\<rparr>"
proof -
  have s: "identify_shape U t = None"
    using assms by (simp add: identify_shape_def first_keyword_None)
  have a: "identify_action U t =
             map_option snd (find (\<lambda>(kw, tag). sublist (u_lower U kw) (u_lower U t)) ACTION_KEYWORDS)"
    by (simp add: identify_action_def first_keyword_find)
  have ne: "identify_action U t \<noteq> Some []"
    by (simp add: identify_action_def tags_nonempty)
  show ?thesis
    using ne unfolding parse_command_def s a
    by (auto simp: falsy_def Let_def split: option.splits)
qed

theorem no_shape_degraded_witness:
  "parse_command basic_tables (cps ''save it'') =
     Inr \<lparr>action = ''save'', shape = None, parameters = [], raw_text = cps ''save it'',
          confidence = 0.3\<rparr>"
  using no_shape_degraded[OF save_it_no_shape]
  unfolding py_in_sublist[symmetric]
  by (simp add: ACTION_KEYWORDS_def eval_defs)

end
